theory Spec2Isabelle
  imports Main "HOL-Library.Sublist"
begin

section \<open>Strings\<close>

text \<open>
  A Python \<open>str\<close> is modelled as a \<open>string\<close> holding its UTF-8 bytes, so the pictographs of
  the message templates are byte sequences and the task text is carried through unchanged.
\<close>

definition newline :: string where
  "newline = [CHR 0x0A]"

definition bell :: string where
  \<comment> \<open>U+1F514\<close>
  "bell = [CHR 0xF0, CHR 0x9F, CHR 0x94, CHR 0x94]"

definition clipboard :: string where
  \<comment> \<open>U+1F4CB\<close>
  "clipboard = [CHR 0xF0, CHR 0x9F, CHR 0x93, CHR 0x8B]"

definition check_mark :: string where
  \<comment> \<open>U+2705\<close>
  "check_mark = [CHR 0xE2, CHR 0x9C, CHR 0x85]"

definition memo :: string where
  \<comment> \<open>U+1F4DD\<close>
  "memo = [CHR 0xF0, CHR 0x9F, CHR 0x93, CHR 0x9D]"

definition cross_mark :: string where
  \<comment> \<open>U+274C\<close>
  "cross_mark = [CHR 0xE2, CHR 0x9D, CHR 0x8C]"

text \<open>
  \<open>str.lower()\<close>: the letters A to Z move to a to z and every other byte stays. Beyond
  ASCII, Python lowers more characters, but the only ones whose lowered form holds an ASCII
  letter are U+212A (to \<open>k\<close>, a letter of no keyword below) and U+0130 (to \<open>i\<close> followed by
  U+0307, while every \<open>i\<close> of a keyword below is followed by a letter), so the keyword test
  that reads the lowered text gives the same answer on the bytes.
\<close>

definition lower_char :: "char \<Rightarrow> char" where
  "lower_char c =
     (case map_of (zip ''ABCDEFGHIJKLMNOPQRSTUVWXYZ'' ''abcdefghijklmnopqrstuvwxyz'') c of
        Some l \<Rightarrow> l
      | None \<Rightarrow> c)"

definition lower :: "string \<Rightarrow> string" where
  "lower s = map lower_char s"

text \<open>\<open>k in s\<close> on strings: \<open>k\<close> occurs in \<open>s\<close> as a contiguous run.\<close>

fun str_in :: "string \<Rightarrow> string \<Rightarrow> bool" where
  "str_in k [] = (k = [])"
| "str_in k (c # cs) = (prefix k (c # cs) \<or> str_in k cs)"

section \<open>State definition\<close>

text \<open>
  The typed dictionary \<open>WorkflowState\<close>. Every state the graph sees has all four keys
  (\<open>process_new_task\<close> supplies them), so the defaults of the \<open>get\<close> calls in the steps
  are never taken; an optional string that is \<open>None\<close> is the unset status or result.
\<close>

record WorkflowState =
  task :: string
  approval_status :: "string option"
  result :: "string option"
  iteration :: int

section \<open>Graph nodes\<close>

text \<open>
  A step that raises \<open>NodeInterrupt\<close> returns the interrupt on the left; a step that
  returns gives the new state on the right.
\<close>

datatype interrupt = NodeInterrupt string

definition sensitive_keywords :: "string list" where
  "sensitive_keywords = [''delete'', ''remove'', ''critical'', ''important'', ''sensitive'']"

definition needs_approval :: "string \<Rightarrow> bool" where
  "needs_approval t = list_ex (\<lambda>keyword. str_in keyword (lower t)) sensitive_keywords"

definition approval_prompt :: "string \<Rightarrow> string" where
  "approval_prompt t =
     bell @ '' Task requires human approval:'' @ newline @
     clipboard @ '' Task: '' @ t @ newline @
     ''Please choose: Approve / Reject / Modify''"

definition analyze_task :: "WorkflowState \<Rightarrow> interrupt + WorkflowState" where
  "analyze_task state =
     (if iteration state > 0 then Inr (state\<lparr>approval_status := Some ''modified''\<rparr>)
      else if needs_approval (task state) then Inl (NodeInterrupt (approval_prompt (task state)))
      else Inr (state\<lparr>approval_status := Some ''auto_approved''\<rparr>))"

text \<open>
  The dictionary of \<open>execute_task\<close>, in the order of the source, and its lookup with a
  default. The key looked up is the status as the state holds it, \<open>None\<close> included.
\<close>

definition status_messages :: "string \<Rightarrow> (string option \<times> string) list" where
  "status_messages t =
     [(Some ''approved'', check_mark @ '' Task approved and executed:'' @ newline @ clipboard @ '' '' @ t),
      (Some ''modified'', memo @ '' Modified task executed successfully:'' @ newline @ clipboard @ '' '' @ t),
      (Some ''auto_approved'', check_mark @ '' Task auto-approved and executed:'' @ newline @ clipboard @ '' '' @ t)]"

definition completed_message :: "string \<Rightarrow> string" where
  "completed_message t = check_mark @ '' Task completed:'' @ newline @ clipboard @ '' '' @ t"

definition execute_task :: "WorkflowState \<Rightarrow> WorkflowState" where
  "execute_task state =
     state\<lparr>result := Some (case map_of (status_messages (task state)) (approval_status state) of
                             Some m \<Rightarrow> m
                           | None \<Rightarrow> completed_message (task state))\<rparr>"

definition rejection_message :: "string \<Rightarrow> string" where
  "rejection_message t =
     cross_mark @ '' Task rejected and not executed:'' @ newline @ clipboard @ '' '' @ t"

definition handle_rejection :: "WorkflowState \<Rightarrow> WorkflowState" where
  "handle_rejection state = state\<lparr>result := Some (rejection_message (task state))\<rparr>"

section \<open>Conditional routing\<close>

definition route_after_analyze :: "WorkflowState \<Rightarrow> string" where
  "route_after_analyze state =
     (if approval_status state = Some ''rejected'' then ''reject'' else ''execute'')"

section \<open>Build workflow\<close>

datatype edge =
    Edge string
  | ConditionalEdges "WorkflowState \<Rightarrow> string" "(string \<times> string) list"

record workflow =
  nodes :: "(string \<times> (WorkflowState \<Rightarrow> interrupt + WorkflowState)) list"
  edges :: "(string \<times> edge) list"

definition START :: string where
  "START = ''__start__''"

definition END :: string where
  "END = ''__end__''"

text \<open>
  The graph as \<open>create_workflow\<close> builds it: three nodes, the edge from the start to
  \<open>analyze\<close>, the conditional edges out of \<open>analyze\<close> with their label table, and the
  edges from \<open>execute\<close> and \<open>reject\<close> to the end. The two terminal steps never raise.
\<close>

definition create_workflow :: workflow where
  "create_workflow =
     \<lparr>nodes =
        [(''analyze'', analyze_task),
         (''execute'', \<lambda>state. Inr (execute_task state)),
         (''reject'', \<lambda>state. Inr (handle_rejection state))],
      edges =
        [(START, Edge ''analyze''),
         (''analyze'', ConditionalEdges route_after_analyze
            [(''execute'', ''execute''), (''reject'', ''reject'')]),
         (''execute'', Edge END),
         (''reject'', Edge END)]\<rparr>"

section \<open>State handed to the graph by the callers\<close>

text \<open>The initial state \<open>process_new_task\<close> streams into the graph.\<close>

definition initial_state :: "string \<Rightarrow> WorkflowState" where
  "initial_state t = \<lparr>task = t, approval_status = None, result = None, iteration = 0\<rparr>"

text \<open>
  The updates the two resuming callers merge into the checkpointed state:
  \<open>resume_workflow\<close> passes \<open>{"approval_status": decision}\<close>, and \<open>modify_and_resume\<close>
  passes the new task, the status \<open>"modified"\<close> and the iteration \<open>1\<close>. The merge takes
  any decision string. (The buttons of the source pass \<open>approved\<close> and \<open>rejected\<close> only,
  and \<open>resume_workflow\<close> looks the label of the decision up in a table of these two before
  it merges.)
\<close>

definition resume_workflow_update :: "string \<Rightarrow> WorkflowState \<Rightarrow> WorkflowState" where
  "resume_workflow_update decision state = state\<lparr>approval_status := Some decision\<rparr>"

definition modify_and_resume_update :: "string \<Rightarrow> WorkflowState \<Rightarrow> WorkflowState" where
  "modify_and_resume_update new_task state =
     state\<lparr>task := new_task, approval_status := Some ''modified'', iteration := 1\<rparr>"

section \<open>Execution engine\<close>

text \<open>
  Modelled from the spec: the Execution Engine and its Checkpoint Store, everything in this
  section. In the source they are the compiled graph and the \<open>MemorySaver\<close> of the
  langgraph library, which the repository calls (\<open>stream\<close>, \<open>update_state\<close>,
  \<open>get_state\<close>) and does not contain. The engine walks the graph of \<open>create_workflow\<close>;
  the steps, the router, the edges, the initial state and the merged updates are the
  source's. The checkpoint's version counter is left out: nothing below reads it.
\<close>

text \<open>
  Modelled from the spec: the errors of the engine, the outcome of \<open>run\<close> and \<open>resume\<close>
  (a completed outcome carries the result as the final state holds it), and the decision
  handed to \<open>resume\<close>: a decision string, or the replacement task of a modification.
\<close>

datatype engine_error = InvalidTransition | UnknownThread | StepFailure

datatype RunOutcome = suspended string | completed "string option"

datatype decision = Decide string | Modify string

text \<open>
  Modelled from the spec: a checkpoint holds the latest state and the step the thread is
  paused at, if any. A thread without a checkpoint is fresh, a paused one is suspended,
  and one whose pass has ended is completed.
\<close>

record checkpoint =
  snapshot :: WorkflowState
  paused_at :: "string option"

type_synonym checkpoint_store = "string \<rightharpoonup> checkpoint"

datatype thread_state = FRESH | SUSPENDED | COMPLETED

definition state_of :: "checkpoint_store \<Rightarrow> string \<Rightarrow> thread_state" where
  "state_of store thread_id =
     (case store thread_id of
        None \<Rightarrow> FRESH
      | Some cp \<Rightarrow> (case paused_at cp of Some _ \<Rightarrow> SUSPENDED | None \<Rightarrow> COMPLETED))"

definition getState :: "checkpoint_store \<Rightarrow> string \<Rightarrow> engine_error + WorkflowState" where
  "getState store thread_id =
     (case store thread_id of None \<Rightarrow> Inl UnknownThread | Some cp \<Rightarrow> Inr (snapshot cp))"

text \<open>
  Modelled from the spec: the step that follows \<open>n\<close> is the target of its edge, or the
  router's label looked up in the table of the conditional edge.
\<close>

definition successor :: "workflow \<Rightarrow> string \<Rightarrow> WorkflowState \<Rightarrow> string option" where
  "successor g n state =
     (case map_of (edges g) n of
        None \<Rightarrow> None
      | Some (Edge m) \<Rightarrow> Some m
      | Some (ConditionalEdges router table) \<Rightarrow> map_of table (router state))"

datatype walk_outcome =
    Terminal WorkflowState
  | Pause string string WorkflowState
  | Failure

text \<open>
  Modelled from the spec: the walk from step \<open>n\<close> runs the step and follows its edge,
  until the end is reached or a step raises its interrupt; then the thread pauses at that
  step with the state the step was entered with. The first argument bounds the number of
  steps of one pass; a pass over the graph visits no step twice, so one more than the
  number of nodes is enough, and the properties below show that no pass runs out.
\<close>

fun walk :: "nat \<Rightarrow> workflow \<Rightarrow> string \<Rightarrow> WorkflowState \<Rightarrow> walk_outcome" where
  "walk 0 g n state = Failure"
| "walk (Suc fuel) g n state =
     (if n = END then Terminal state
      else case map_of (nodes g) n of
        None \<Rightarrow> Failure
      | Some step \<Rightarrow>
          (case step state of
             Inl (NodeInterrupt message) \<Rightarrow> Pause n message state
           | Inr state' \<Rightarrow>
               (case successor g n state' of
                  None \<Rightarrow> Failure
                | Some m \<Rightarrow> walk fuel g m state')))"

definition pass_bound :: "workflow \<Rightarrow> nat" where
  "pass_bound g = Suc (length (nodes g))"

text \<open>
  Modelled from the spec: the end of a pass writes the checkpoint and gives the outcome; a
  failed pass leaves the store as it was.
\<close>

definition commit ::
  "checkpoint_store \<Rightarrow> string \<Rightarrow> walk_outcome \<Rightarrow> (engine_error + RunOutcome) \<times> checkpoint_store" where
  "commit store thread_id w =
     (case w of
        Terminal state \<Rightarrow>
          (Inr (completed (result state)),
           store(thread_id \<mapsto> \<lparr>snapshot = state, paused_at = None\<rparr>))
      | Pause n message state \<Rightarrow>
          (Inr (suspended message),
           store(thread_id \<mapsto> \<lparr>snapshot = state, paused_at = Some n\<rparr>))
      | Failure \<Rightarrow> (Inl StepFailure, store))"

definition continue_from ::
  "checkpoint_store \<Rightarrow> string \<Rightarrow> string \<Rightarrow> WorkflowState \<Rightarrow>
     (engine_error + RunOutcome) \<times> checkpoint_store" where
  "continue_from store thread_id n state =
     (case successor create_workflow n state of
        None \<Rightarrow> (Inl StepFailure, store)
      | Some m \<Rightarrow> commit store thread_id (walk (pass_bound create_workflow) create_workflow m state))"

text \<open>
  Modelled from the spec: \<open>run\<close> is valid on a fresh thread only; it enters the graph at
  the start with the initial state of the task.
\<close>

definition run ::
  "checkpoint_store \<Rightarrow> string \<Rightarrow> string \<Rightarrow> (engine_error + RunOutcome) \<times> checkpoint_store" where
  "run store thread_id t =
     (case store thread_id of
        Some _ \<Rightarrow> (Inl InvalidTransition, store)
      | None \<Rightarrow> continue_from store thread_id START (initial_state t))"

text \<open>
  Modelled from the spec: \<open>resume\<close> is valid on a suspended thread only. It merges the
  decision into the checkpointed state, with the updates of the source, and re-enters the
  graph at the edge out of the step the thread is paused at.
\<close>

fun merge :: "decision \<Rightarrow> WorkflowState \<Rightarrow> WorkflowState" where
  "merge (Decide d) state = resume_workflow_update d state"
| "merge (Modify new_task) state = modify_and_resume_update new_task state"

definition resume ::
  "checkpoint_store \<Rightarrow> string \<Rightarrow> decision \<Rightarrow> (engine_error + RunOutcome) \<times> checkpoint_store" where
  "resume store thread_id d =
     (case store thread_id of
        None \<Rightarrow> (Inl UnknownThread, store)
      | Some cp \<Rightarrow>
          (case paused_at cp of
             None \<Rightarrow> (Inl InvalidTransition, store)
           | Some n \<Rightarrow> continue_from store thread_id n (merge d (snapshot cp))))"

text \<open>Modelled from the spec: the stores that calls of \<open>run\<close> and \<open>resume\<close> lead to.\<close>

inductive reachable :: "checkpoint_store \<Rightarrow> bool" where
  reachable_empty: "reachable Map.empty"
| reachable_run: "reachable store \<Longrightarrow> reachable (snd (run store thread_id t))"
| reachable_resume: "reachable store \<Longrightarrow> reachable (snd (resume store thread_id d))"

section \<open>Auxiliary notions\<close>

text \<open>The state a task without keywords ends in.\<close>

definition auto_approved_state :: "string \<Rightarrow> WorkflowState" where
  "auto_approved_state t =
     \<lparr>task = t, approval_status = Some ''auto_approved'',
      result = Some (check_mark @ '' Task auto-approved and executed:'' @ newline @ clipboard @ '' '' @ t),
      iteration = 0\<rparr>"

text \<open>The terminal step the conditional edge out of \<open>analyze\<close> leads to, applied.\<close>

definition terminal_step :: "WorkflowState \<Rightarrow> WorkflowState" where
  "terminal_step s =
     (if approval_status s = Some ''rejected'' then handle_rejection s else execute_task s)"

text \<open>
  What every checkpoint of a reachable store satisfies: a paused thread is parked at
  \<open>analyze\<close> on the initial state of a task that needs approval, and a finished thread
  has a result and a status.
\<close>

definition checkpoint_ok :: "checkpoint \<Rightarrow> bool" where
  "checkpoint_ok cp =
     (case paused_at cp of
        Some n \<Rightarrow> n = ''analyze'' \<and> needs_approval (task (snapshot cp)) \<and>
                  snapshot cp = initial_state (task (snapshot cp))
      | None \<Rightarrow> result (snapshot cp) \<noteq> None \<and> approval_status (snapshot cp) \<noteq> None)"


section \<open>The policy and the messages\<close>

lemma str_in_sublist: "str_in k s \<longleftrightarrow> sublist k s"
  by (induction s) (auto simp: sublist_Cons_right)

lemma needs_approval_sublist:
  "needs_approval t \<longleftrightarrow> (\<exists>k \<in> set sensitive_keywords. sublist k (lower t))"
  by (simp add: needs_approval_def list_ex_iff str_in_sublist)


lemmas policy_defs = needs_approval_def sensitive_keywords_def lower_def lower_char_def

section \<open>The engine on the graph of the source\<close>

lemmas graph_defs = create_workflow_def successor_def START_def END_def pass_bound_def

lemma continue_from_start:
  "continue_from store tid START (initial_state t) =
     (if needs_approval t
      then (Inr (suspended (approval_prompt t)),
            store(tid \<mapsto> \<lparr>snapshot = initial_state t, paused_at = Some ''analyze''\<rparr>))
      else (Inr (completed (result (auto_approved_state t))),
            store(tid \<mapsto> \<lparr>snapshot = auto_approved_state t, paused_at = None\<rparr>)))"
  by (simp add: continue_from_def graph_defs commit_def analyze_task_def initial_state_def
      route_after_analyze_def execute_task_def status_messages_def auto_approved_state_def)

lemma continue_from_analyze:
  "continue_from store tid ''analyze'' s =
     (Inr (completed (result (terminal_step s))),
      store(tid \<mapsto> \<lparr>snapshot = terminal_step s, paused_at = None\<rparr>))"
  by (simp add: continue_from_def graph_defs commit_def route_after_analyze_def terminal_step_def)

lemma run_fresh:
  "store tid = None \<Longrightarrow> run store tid t = continue_from store tid START (initial_state t)"
  by (simp add: run_def)

lemma terminal_step_sets:
  "result (terminal_step s) \<noteq> None"
  "approval_status (terminal_step s) = approval_status s"
  "task (terminal_step s) = task s"
  "iteration (terminal_step s) = iteration s"
  by (simp_all add: terminal_step_def handle_rejection_def execute_task_def)

lemma merge_sets_status: "approval_status (merge d s) \<noteq> None"
  by (cases d) (simp_all add: resume_workflow_update_def modify_and_resume_update_def)

lemma run_store:
  "snd (run store th t) = store \<or>
   (\<exists>cp. checkpoint_ok cp \<and> snd (run store th t) = store(th \<mapsto> cp))"
proof (cases "store th")
  case None
  show ?thesis
  proof (cases "needs_approval t")
    case True
    have "checkpoint_ok \<lparr>snapshot = initial_state t, paused_at = Some ''analyze''\<rparr>"
      using True by (simp add: checkpoint_ok_def initial_state_def)
    with None True show ?thesis
      by (auto simp: run_fresh continue_from_start)
  next
    case False
    have "checkpoint_ok \<lparr>snapshot = auto_approved_state t, paused_at = None\<rparr>"
      by (simp add: checkpoint_ok_def auto_approved_state_def)
    with None False show ?thesis
      by (auto simp: run_fresh continue_from_start)
  qed
next
  case (Some cp)
  then show ?thesis by (simp add: run_def)
qed

lemma resume_suspended:
  "store th = Some cp \<Longrightarrow> paused_at cp = Some ''analyze'' \<Longrightarrow>
   resume store th d =
     (Inr (completed (result (terminal_step (merge d (snapshot cp))))),
      store(th \<mapsto> \<lparr>snapshot = terminal_step (merge d (snapshot cp)), paused_at = None\<rparr>))"
  by (simp add: resume_def continue_from_analyze)

lemma resume_store:
  assumes "\<And>cp. store th = Some cp \<Longrightarrow> checkpoint_ok cp"
  shows "snd (resume store th d) = store \<or>
   (\<exists>cp. checkpoint_ok cp \<and> snd (resume store th d) = store(th \<mapsto> cp))"
proof (cases "store th")
  case None
  then show ?thesis by (simp add: resume_def)
next
  case (Some cp)
  show ?thesis
  proof (cases "paused_at cp")
    case None
    with Some show ?thesis by (simp add: resume_def)
  next
    case (Some n)
    with \<open>store th = Some cp\<close> assms have "paused_at cp = Some ''analyze''"
      by (auto simp: checkpoint_ok_def)
    moreover have "checkpoint_ok
        \<lparr>snapshot = terminal_step (merge d (snapshot cp)), paused_at = None\<rparr>"
      by (simp add: checkpoint_ok_def terminal_step_sets merge_sets_status)
    ultimately show ?thesis
      using \<open>store th = Some cp\<close> by (auto simp: resume_suspended)
  qed
qed

lemma reachable_checkpoint_ok:
  "reachable store \<Longrightarrow> store tid = Some cp \<Longrightarrow> checkpoint_ok cp"
proof (induction arbitrary: tid cp rule: reachable.induct)
  case reachable_empty
  then show ?case by simp
next
  case (reachable_run store th t)
  from run_store [of store th t] reachable_run show ?case
    by (auto split: if_splits)
next
  case (reachable_resume store th d)
  from resume_store [of store th d] reachable_resume show ?case
    by (auto split: if_splits)
qed

lemma suspended_checkpoint:
  assumes "reachable store" "state_of store tid = SUSPENDED"
  obtains cp where "store tid = Some cp" "paused_at cp = Some ''analyze''"
    "snapshot cp = initial_state (task (snapshot cp))" "needs_approval (task (snapshot cp))"
proof -
  from assms(2) obtain cp n where cp: "store tid = Some cp" "paused_at cp = Some n"
    by (auto simp: state_of_def split: option.splits)
  with reachable_checkpoint_ok [OF assms(1) cp(1)] that show thesis
    by (auto simp: checkpoint_ok_def)
qed

lemma state_of_simps:
  "state_of store tid = FRESH \<longleftrightarrow> store tid = None"
  "state_of store tid = SUSPENDED \<longleftrightarrow> (\<exists>cp n. store tid = Some cp \<and> paused_at cp = Some n)"
  "state_of store tid = COMPLETED \<longleftrightarrow> (\<exists>cp. store tid = Some cp \<and> paused_at cp = None)"
  by (auto simp: state_of_def split: option.splits)

lemma suspended_run:
  "needs_approval t \<Longrightarrow>
   snd (run Map.empty tid t) = [tid \<mapsto> \<lparr>snapshot = initial_state t, paused_at = Some ''analyze''\<rparr>]"
  by (simp add: run_fresh continue_from_start)

lemma resume_reachable_suspended:
  assumes "reachable store" and "state_of store tid = SUSPENDED"
  shows "\<exists>cp. store tid = Some cp \<and> snapshot cp = initial_state (task (snapshot cp)) \<and>
    resume store tid d =
      (Inr (completed (result (terminal_step (merge d (snapshot cp))))),
       store(tid \<mapsto> \<lparr>snapshot = terminal_step (merge d (snapshot cp)), paused_at = None\<rparr>))"
proof -
  from assms obtain cp where cp: "store tid = Some cp" "paused_at cp = Some ''analyze''"
    "snapshot cp = initial_state (task (snapshot cp))"
    by (blast elim: suspended_checkpoint)
  from cp(1,2) have "resume store tid d =
      (Inr (completed (result (terminal_step (merge d (snapshot cp))))),
       store(tid \<mapsto> \<lparr>snapshot = terminal_step (merge d (snapshot cp)), paused_at = None\<rparr>))"
    by (rule resume_suspended)
  with cp(1,3) show ?thesis by blast
qed

lemma suspended_demo:
  "reachable (snd (run Map.empty ''demo_thread'' ''delete important file''))"
  "snd (run Map.empty ''demo_thread'' ''delete important file'') =
     [''demo_thread'' \<mapsto>
        \<lparr>snapshot = initial_state ''delete important file'', paused_at = Some ''analyze''\<rparr>]"
  "state_of (snd (run Map.empty ''demo_thread'' ''delete important file'')) ''demo_thread'' =
     SUSPENDED"
proof -
  show "reachable (snd (run Map.empty ''demo_thread'' ''delete important file''))"
    by (rule reachable_run [OF reachable_empty])
  have "needs_approval ''delete important file''"
    by (simp add: policy_defs)
  then show st: "snd (run Map.empty ''demo_thread'' ''delete important file'') =
     [''demo_thread'' \<mapsto>
        \<lparr>snapshot = initial_state ''delete important file'', paused_at = Some ''analyze''\<rparr>]"
    by (rule suspended_run)
  show "state_of (snd (run Map.empty ''demo_thread'' ''delete important file'')) ''demo_thread'' =
     SUSPENDED"
    by (simp add: st state_of_def)
qed







section \<open>The claims\<close>

text \<open>
  C1. For every task at iteration 0, the run suspends exactly when the lowered task contains
  one of the sensitive keywords. With a keyword the outcome is the suspension with the
  approval prompt and the thread is parked at \<open>analyze\<close>; without one the outcome is
  completed, the status is \<open>auto_approved\<close>, and no suspension is raised.
\<close>

theorem run_suspends_iff_keyword:
  assumes "state_of store tid = FRESH"
  shows
   "(iteration s = 0 \<longrightarrow>
       ((\<exists>i. analyze_task s = Inl i) \<longleftrightarrow>
        (\<exists>k \<in> set sensitive_keywords. sublist k (lower (task s))))) \<and>
    ((\<exists>m. fst (run store tid t) = Inr (suspended m)) \<longleftrightarrow>
     (\<exists>k \<in> set sensitive_keywords. sublist k (lower t))) \<and>
    ((\<exists>k \<in> set sensitive_keywords. sublist k (lower t)) \<longrightarrow>
       fst (run store tid t) = Inr (suspended (approval_prompt t)) \<and>
       snd (run store tid t) tid =
         Some \<lparr>snapshot = initial_state t, paused_at = Some ''analyze''\<rparr> \<and>
       state_of (snd (run store tid t)) tid = SUSPENDED) \<and>
    (\<not> (\<exists>k \<in> set sensitive_keywords. sublist k (lower t)) \<longrightarrow>
       fst (run store tid t) =
         Inr (completed (Some (check_mark @ '' Task auto-approved and executed:'' @ newline @
                               clipboard @ '' '' @ t))) \<and>
       getState (snd (run store tid t)) tid =
         Inr \<lparr>task = t, approval_status = Some ''auto_approved'',
              result = Some (check_mark @ '' Task auto-approved and executed:'' @ newline @
                             clipboard @ '' '' @ t),
              iteration = 0\<rparr> \<and>
       state_of (snd (run store tid t)) tid = COMPLETED)"
proof -
  from assms have fresh: "store tid = None"
    by (simp add: state_of_simps)
  have analyze: "iteration s = 0 \<longrightarrow>
       ((\<exists>i. analyze_task s = Inl i) \<longleftrightarrow>
        (\<exists>k \<in> set sensitive_keywords. sublist k (lower (task s))))"
    by (simp add: analyze_task_def needs_approval_sublist)
  show ?thesis
  proof (cases "needs_approval t")
    case True
    with fresh analyze show ?thesis
      by (simp add: run_fresh continue_from_start needs_approval_sublist [symmetric]
          state_of_def)
  next
    case False
    with fresh analyze show ?thesis
      by (simp add: run_fresh continue_from_start needs_approval_sublist [symmetric]
          state_of_def getState_def auto_approved_state_def)
  qed
qed

theorem run_suspends_iff_keyword_witness:
  "state_of Map.empty ''demo_thread'' = FRESH \<and>
   fst (run Map.empty ''demo_thread'' ''generate report'') =
     Inr (completed (Some (check_mark @ '' Task auto-approved and executed:'' @ newline @
                           clipboard @ '' generate report''))) \<and>
   fst (run Map.empty ''demo_thread'' ''Delete Important file'') =
     Inr (suspended (approval_prompt ''Delete Important file'')) \<and>
   (\<exists>i. analyze_task (initial_state ''Delete Important file'') = Inl i)"
proof -
  have fresh: "state_of Map.empty ''demo_thread'' = FRESH"
    by (simp add: state_of_def)
  have "\<not> needs_approval ''generate report''" and "needs_approval ''Delete Important file''"
    by (simp_all add: policy_defs)
  then have no: "\<not> (\<exists>k \<in> set sensitive_keywords. sublist k (lower ''generate report''))"
    and yes: "\<exists>k \<in> set sensitive_keywords. sublist k (lower ''Delete Important file'')"
    by (simp_all add: needs_approval_sublist)
  have it: "iteration (initial_state ''Delete Important file'') = 0"
    and tk: "task (initial_state ''Delete Important file'') = ''Delete Important file''"
    by (simp_all add: initial_state_def)
  from run_suspends_iff_keyword [OF fresh, of "initial_state ''Delete Important file''"
      "''generate report''"] no
  have a: "fst (run Map.empty ''demo_thread'' ''generate report'') =
     Inr (completed (Some (check_mark @ '' Task auto-approved and executed:'' @ newline @
                           clipboard @ '' generate report'')))"
    by simp
  from run_suspends_iff_keyword [OF fresh, of "initial_state ''Delete Important file''"
      "''Delete Important file''"] yes it tk
  have b: "fst (run Map.empty ''demo_thread'' ''Delete Important file'') =
     Inr (suspended (approval_prompt ''Delete Important file''))"
    and c: "\<exists>i. analyze_task (initial_state ''Delete Important file'') = Inl i"
    by simp_all
  from fresh a b c show ?thesis by blast
qed

text \<open>
  C2. On a suspended thread, resuming with the decision to modify the task to \<open>T\<close> sets
  the task to \<open>T\<close>, the status to \<open>modified\<close> and the iteration to \<open>1\<close>, which is the
  stored iteration plus one. The policy is not asked again: with a positive iteration
  \<open>analyze_task\<close> returns the state with the status \<open>modified\<close> whatever the task says,
  so it leaves the merged state as it is. The resumed pass completes, and its result is
  the template of the modified status filled with \<open>T\<close>; the original task has no part
  in it.
\<close>

theorem modify_resume_completes:
  assumes "reachable store" and "state_of store tid = SUSPENDED" and "store tid = Some cp"
  shows
   "task (merge (Modify T) (snapshot cp)) = T \<and>
    approval_status (merge (Modify T) (snapshot cp)) = Some ''modified'' \<and>
    iteration (merge (Modify T) (snapshot cp)) = iteration (snapshot cp) + 1 \<and>
    iteration (merge (Modify T) (snapshot cp)) = 1 \<and>
    (0 < iteration s \<longrightarrow> analyze_task s = Inr (s\<lparr>approval_status := Some ''modified''\<rparr>)) \<and>
    analyze_task (merge (Modify T) (snapshot cp)) = Inr (merge (Modify T) (snapshot cp)) \<and>
    fst (resume store tid (Modify T)) =
      Inr (completed (Some (memo @ '' Modified task executed successfully:'' @ newline @
                            clipboard @ '' '' @ T))) \<and>
    sublist T (memo @ '' Modified task executed successfully:'' @ newline @ clipboard @ '' '' @ T) \<and>
    getState (snd (resume store tid (Modify T))) tid =
      Inr \<lparr>task = T, approval_status = Some ''modified'',
           result = Some (memo @ '' Modified task executed successfully:'' @ newline @
                          clipboard @ '' '' @ T),
           iteration = 1\<rparr> \<and>
    state_of (snd (resume store tid (Modify T))) tid = COMPLETED"
proof -
  from assms(1,2) obtain cp' where cp': "store tid = Some cp'" "paused_at cp' = Some ''analyze''"
    "snapshot cp' = initial_state (task (snapshot cp'))"
    by (blast elim: suspended_checkpoint)
  with assms(3) have cp: "paused_at cp = Some ''analyze''"
    "snapshot cp = initial_state (task (snapshot cp))"
    by simp_all
  define m where "m = merge (Modify T) (snapshot cp)"
  have m: "m = \<lparr>task = T, approval_status = Some ''modified'', result = None, iteration = 1\<rparr>"
    unfolding m_def by (subst cp(2)) (simp add: modify_and_resume_update_def initial_state_def)
  have it: "iteration (snapshot cp) = 0"
    by (subst cp(2)) (simp add: initial_state_def)
  have fin: "terminal_step m =
      \<lparr>task = T, approval_status = Some ''modified'',
       result = Some (memo @ '' Modified task executed successfully:'' @ newline @
                      clipboard @ '' '' @ T),
       iteration = 1\<rparr>"
    by (simp add: m terminal_step_def execute_task_def status_messages_def)
  have sub: "sublist T (memo @ '' Modified task executed successfully:'' @ newline @
      clipboard @ '' '' @ T)"
    by (intro sublist_appendI suffix_imp_sublist) (simp add: suffix_def)
  have an: "0 < iteration s \<longrightarrow> analyze_task s = Inr (s\<lparr>approval_status := Some ''modified''\<rparr>)"
    by (simp add: analyze_task_def)
  have an_m: "analyze_task m = Inr m"
    by (simp add: m analyze_task_def)
  have res: "resume store tid (Modify T) =
     (Inr (completed (result (terminal_step m))),
      store(tid \<mapsto> \<lparr>snapshot = terminal_step m, paused_at = None\<rparr>))"
    unfolding m_def using assms(3) cp(1) by (rule resume_suspended)
  show ?thesis
    unfolding m_def [symmetric] res
    using an an_m sub it by (simp add: fin getState_def state_of_def) (simp add: m)
qed

theorem modify_resume_completes_witness:
  "reachable (snd (run Map.empty ''demo_thread'' ''delete important file'')) \<and>
   state_of (snd (run Map.empty ''demo_thread'' ''delete important file'')) ''demo_thread'' =
     SUSPENDED \<and>
   fst (resume (snd (run Map.empty ''demo_thread'' ''delete important file'')) ''demo_thread''
          (Modify ''archive old file'')) =
     Inr (completed (Some (memo @ '' Modified task executed successfully:'' @ newline @
                           clipboard @ '' archive old file''))) \<and>
   fst (resume (snd (run Map.empty ''demo_thread'' ''delete important file'')) ''demo_thread''
          (Modify ''delete every file'')) =
     Inr (completed (Some (memo @ '' Modified task executed successfully:'' @ newline @
                           clipboard @ '' delete every file'')))"
proof -
  let ?st = "snd (run Map.empty ''demo_thread'' ''delete important file'')"
  let ?cp = "\<lparr>snapshot = initial_state ''delete important file'', paused_at = Some ''analyze''\<rparr>"
  have r: "reachable ?st"
    by (rule reachable_run [OF reachable_empty])
  have "needs_approval ''delete important file''"
    by (simp add: policy_defs)
  then have st: "?st = [''demo_thread'' \<mapsto> ?cp]"
    by (rule suspended_run)
  then have s: "state_of ?st ''demo_thread'' = SUSPENDED" and c: "?st ''demo_thread'' = Some ?cp"
    by (simp_all add: state_of_def)
  from modify_resume_completes [OF r s c, of "''archive old file''"]
    modify_resume_completes [OF r s c, of "''delete every file''"] r s
  show ?thesis by simp
qed

text \<open>
  C3. Resuming a suspended thread twice with the same decision succeeds the first time and
  fails with \<open>InvalidTransition\<close> the second time, the thread being completed by then;
  the second call leaves the checkpoint store as the first call left it.
\<close>

theorem resume_twice:
  assumes "reachable store" and "state_of store tid = SUSPENDED"
  shows
   "(\<exists>r. fst (resume store tid d) = Inr (completed r)) \<and>
    state_of (snd (resume store tid d)) tid = COMPLETED \<and>
    fst (resume (snd (resume store tid d)) tid d) = Inl InvalidTransition \<and>
    snd (resume (snd (resume store tid d)) tid d) = snd (resume store tid d)"
proof -
  from resume_reachable_suspended [OF assms, of d] obtain cp :: checkpoint where "resume store tid d =
      (Inr (completed (result (terminal_step (merge d (snapshot cp))))),
       store(tid \<mapsto> \<lparr>snapshot = terminal_step (merge d (snapshot cp)), paused_at = None\<rparr>))"
    by blast
  then show ?thesis
    by (simp add: state_of_def) (simp add: resume_def)
qed

theorem resume_twice_witness:
  "reachable (snd (run Map.empty ''demo_thread'' ''delete important file'')) \<and>
   state_of (snd (run Map.empty ''demo_thread'' ''delete important file'')) ''demo_thread'' =
     SUSPENDED \<and>
   fst (resume (snd (resume (snd (run Map.empty ''demo_thread'' ''delete important file''))
                       ''demo_thread'' (Decide ''approved'')))
          ''demo_thread'' (Decide ''approved'')) = Inl InvalidTransition"
  using resume_twice [OF suspended_demo(1,3), of "Decide ''approved''"] suspended_demo(1,3)
  by simp



text \<open>
  C5. Resuming a suspended thread returns a completed outcome for every decision and never
  a suspended one: the pass re-enters at the conditional edge out of \<open>analyze\<close>, which
  leads to \<open>execute\<close> or to \<open>reject\<close>, and both end the pass without raising.
\<close>

theorem resume_never_suspends:
  assumes "reachable store" and "state_of store tid = SUSPENDED"
  shows
   "(\<exists>r. fst (resume store tid d) = Inr (completed (Some r))) \<and>
    (\<forall>m. fst (resume store tid d) \<noteq> Inr (suspended m)) \<and>
    state_of (snd (resume store tid d)) tid = COMPLETED \<and>
    successor create_workflow ''analyze'' s \<in> {Some ''execute'', Some ''reject''} \<and>
    walk (pass_bound create_workflow) create_workflow ''execute'' s = Terminal (execute_task s) \<and>
    walk (pass_bound create_workflow) create_workflow ''reject'' s = Terminal (handle_rejection s)"
proof -
  from resume_reachable_suspended [OF assms, of d] obtain cp :: checkpoint where "resume store tid d =
      (Inr (completed (result (terminal_step (merge d (snapshot cp))))),
       store(tid \<mapsto> \<lparr>snapshot = terminal_step (merge d (snapshot cp)), paused_at = None\<rparr>))"
    by blast
  moreover obtain r where "result (terminal_step (merge d (snapshot cp))) = Some r"
    using terminal_step_sets(1) [of "merge d (snapshot cp)"] by blast
  ultimately show ?thesis
    by (simp add: state_of_def) (simp add: graph_defs route_after_analyze_def)
qed

theorem resume_never_suspends_witness:
  "reachable (snd (run Map.empty ''demo_thread'' ''delete important file'')) \<and>
   state_of (snd (run Map.empty ''demo_thread'' ''delete important file'')) ''demo_thread'' =
     SUSPENDED \<and>
   (\<exists>r. fst (resume (snd (run Map.empty ''demo_thread'' ''delete important file''))
               ''demo_thread'' (Decide ''approved'')) = Inr (completed (Some r))) \<and>
   (\<exists>r. fst (resume (snd (run Map.empty ''demo_thread'' ''delete important file''))
               ''demo_thread'' (Decide ''escalate'')) = Inr (completed (Some r)))"
  using resume_never_suspends [OF suspended_demo(1,3), of "Decide ''approved''"]
    resume_never_suspends [OF suspended_demo(1,3), of "Decide ''escalate''"] suspended_demo(1,3)
  by simp

text \<open>
  C6. The Execute step sets the result to the template of the status when the status is
  \<open>approved\<close>, \<open>modified\<close> or \<open>auto_approved\<close>, and to the generic completion message
  for any other status: unset, or any other string, such as a decision merged on resume
  that is none of the three.
\<close>

theorem execute_task_message:
  "(approval_status s = Some ''approved'' \<longrightarrow>
      result (execute_task s) =
        Some (check_mark @ '' Task approved and executed:'' @ newline @ clipboard @ '' '' @ task s)) \<and>
   (approval_status s = Some ''modified'' \<longrightarrow>
      result (execute_task s) =
        Some (memo @ '' Modified task executed successfully:'' @ newline @ clipboard @ '' '' @ task s)) \<and>
   (approval_status s = Some ''auto_approved'' \<longrightarrow>
      result (execute_task s) =
        Some (check_mark @ '' Task auto-approved and executed:'' @ newline @ clipboard @ '' '' @ task s)) \<and>
   (approval_status s \<notin> {Some ''approved'', Some ''modified'', Some ''auto_approved''} \<longrightarrow>
      result (execute_task s) =
        Some (check_mark @ '' Task completed:'' @ newline @ clipboard @ '' '' @ task s)) \<and>
   (d \<notin> {''approved'', ''modified'', ''auto_approved''} \<longrightarrow>
      result (execute_task (resume_workflow_update d s)) =
        Some (check_mark @ '' Task completed:'' @ newline @ clipboard @ '' '' @ task s))"
  by (auto simp: execute_task_def status_messages_def completed_message_def
      resume_workflow_update_def)

theorem execute_task_message_witness:
  "result (execute_task (resume_workflow_update ''approved'' (initial_state ''delete important file''))) =
     Some (check_mark @ '' Task approved and executed:'' @ newline @ clipboard @ '' delete important file'') \<and>
   result (execute_task (modify_and_resume_update ''archive old file'' (initial_state ''delete important file''))) =
     Some (memo @ '' Modified task executed successfully:'' @ newline @ clipboard @ '' archive old file'') \<and>
   result (execute_task \<lparr>task = ''generate report'', approval_status = Some ''auto_approved'',
                          result = None, iteration = 0\<rparr>) =
     Some (check_mark @ '' Task auto-approved and executed:'' @ newline @ clipboard @ '' generate report'') \<and>
   result (execute_task (initial_state ''generate report'')) =
     Some (check_mark @ '' Task completed:'' @ newline @ clipboard @ '' generate report'') \<and>
   result (execute_task (resume_workflow_update ''escalate'' (initial_state ''delete important file''))) =
     Some (check_mark @ '' Task completed:'' @ newline @ clipboard @ '' delete important file'')"
  using
    execute_task_message [of "resume_workflow_update ''approved'' (initial_state ''delete important file'')" "''escalate''"]
    execute_task_message [of "modify_and_resume_update ''archive old file'' (initial_state ''delete important file'')" "''escalate''"]
    execute_task_message [of "\<lparr>task = ''generate report'', approval_status = Some ''auto_approved'',
                          result = None, iteration = 0\<rparr>" "''escalate''"]
    execute_task_message [of "initial_state ''generate report''" "''escalate''"]
    execute_task_message [of "initial_state ''delete important file''" "''escalate''"]
  by (simp add: resume_workflow_update_def modify_and_resume_update_def initial_state_def)

text \<open>
  C7. The router returns \<open>reject\<close> exactly when the status is \<open>rejected\<close> and
  \<open>execute\<close> for every other status, the unset one included; it reads no other field.
\<close>

theorem route_after_analyze_rule:
  "(route_after_analyze s = ''reject'' \<longleftrightarrow> approval_status s = Some ''rejected'') \<and>
   (route_after_analyze s = ''execute'' \<longleftrightarrow> approval_status s \<noteq> Some ''rejected'') \<and>
   route_after_analyze (s\<lparr>approval_status := None\<rparr>) = ''execute'' \<and>
   route_after_analyze (s\<lparr>task := t, result := r, iteration := i\<rparr>) = route_after_analyze s"
  by (simp add: route_after_analyze_def)

text \<open>
  C8. In every reachable store, the result of a thread is set exactly when the thread has
  completed, that is, when its pass has reached a terminal step, and it is unset exactly
  when the thread is suspended. Only \<open>execute_task\<close> and \<open>handle_rejection\<close> set the
  result; \<open>analyze_task\<close> and the merge of a decision leave it. The status is never set
  back to unset: the terminal steps keep it, and \<open>analyze_task\<close> and the merge of a
  decision overwrite it with a status.
\<close>

theorem result_iff_terminal:
  assumes "reachable store" and "store tid = Some cp"
  shows
   "(result (snapshot cp) \<noteq> None \<longleftrightarrow> state_of store tid = COMPLETED) \<and>
    (result (snapshot cp) = None \<longleftrightarrow> state_of store tid = SUSPENDED) \<and>
    (state_of store tid = COMPLETED \<longrightarrow> approval_status (snapshot cp) \<noteq> None) \<and>
    (analyze_task s = Inr s' \<longrightarrow> result s' = result s \<and> approval_status s' \<noteq> None) \<and>
    result (execute_task s) \<noteq> None \<and> approval_status (execute_task s) = approval_status s \<and>
    result (handle_rejection s) \<noteq> None \<and>
    approval_status (handle_rejection s) = approval_status s \<and>
    result (merge d s) = result s \<and> approval_status (merge d s) \<noteq> None"
proof -
  have ok: "checkpoint_ok cp"
    using assms by (rule reachable_checkpoint_ok)
  have "(result (snapshot cp) \<noteq> None \<longleftrightarrow> paused_at cp = None) \<and>
    (paused_at cp = None \<longrightarrow> approval_status (snapshot cp) \<noteq> None)"
  proof (cases "paused_at cp")
    case None
    with ok show ?thesis by (simp add: checkpoint_ok_def)
  next
    case (Some n)
    with ok have "snapshot cp = initial_state (task (snapshot cp))"
      by (simp add: checkpoint_ok_def)
    then have "result (snapshot cp) = result (initial_state (task (snapshot cp)))"
      by (rule arg_cong)
    with Some show ?thesis by (simp add: initial_state_def)
  qed
  with assms(2) have store: "(result (snapshot cp) \<noteq> None \<longleftrightarrow> state_of store tid = COMPLETED) \<and>
    (result (snapshot cp) = None \<longleftrightarrow> state_of store tid = SUSPENDED) \<and>
    (state_of store tid = COMPLETED \<longrightarrow> approval_status (snapshot cp) \<noteq> None)"
    by (cases "paused_at cp") (auto simp: state_of_def)
  have steps: "(analyze_task s = Inr s' \<longrightarrow> result s' = result s \<and> approval_status s' \<noteq> None) \<and>
    result (execute_task s) \<noteq> None \<and> approval_status (execute_task s) = approval_status s \<and>
    result (handle_rejection s) \<noteq> None \<and>
    approval_status (handle_rejection s) = approval_status s"
    by (auto simp: analyze_task_def execute_task_def handle_rejection_def split: if_splits)
  have "result (merge d s) = result s \<and> approval_status (merge d s) \<noteq> None"
    by (cases d) (simp_all add: resume_workflow_update_def modify_and_resume_update_def)
  with store steps show ?thesis by blast
qed

theorem result_iff_terminal_witness:
  "reachable (snd (run Map.empty ''demo_thread'' ''delete important file'')) \<and>
   state_of (snd (run Map.empty ''demo_thread'' ''delete important file'')) ''demo_thread'' =
     SUSPENDED \<and>
   result (initial_state ''delete important file'') = None \<and>
   reachable (snd (run Map.empty ''demo_thread'' ''generate report'')) \<and>
   state_of (snd (run Map.empty ''demo_thread'' ''generate report'')) ''demo_thread'' =
     COMPLETED \<and>
   result (auto_approved_state ''generate report'') \<noteq> None \<and>
   approval_status (auto_approved_state ''generate report'') \<noteq> None"
proof -
  let ?s = "initial_state ''generate report''"
  let ?s' = "\<lparr>task = ''generate report'', approval_status = Some ''auto_approved'',
     result = None, iteration = 0\<rparr>"
  let ?st1 = "snd (run Map.empty ''demo_thread'' ''delete important file'')"
  let ?cp1 = "\<lparr>snapshot = initial_state ''delete important file'', paused_at = Some ''analyze''\<rparr>"
  let ?st2 = "snd (run Map.empty ''demo_thread'' ''generate report'')"
  let ?cp2 = "\<lparr>snapshot = auto_approved_state ''generate report'', paused_at = None\<rparr>"
  have c1: "?st1 ''demo_thread'' = Some ?cp1"
    by (simp add: suspended_demo(2))
  have r2: "reachable ?st2"
    by (rule reachable_run [OF reachable_empty])
  have "\<not> needs_approval ''generate report''"
    by (simp add: policy_defs)
  then have c2: "?st2 ''demo_thread'' = Some ?cp2"
    by (simp add: run_fresh continue_from_start)
  then have s2: "state_of ?st2 ''demo_thread'' = COMPLETED"
    by (simp add: state_of_def)
  have a: "analyze_task ?s = Inr ?s'"
    using \<open>\<not> needs_approval ''generate report''\<close>
    by (simp add: analyze_task_def initial_state_def)
  from result_iff_terminal [OF suspended_demo(1) c1, of ?s ?s' "Decide ''approved''"]
    result_iff_terminal [OF r2 c2, of ?s ?s' "Decide ''approved''"] a suspended_demo(1,3) r2 s2
  show ?thesis by simp
qed

text \<open>
  C9. The policy is containment of a keyword of the fixed list in the lowered task, so a
  keyword inside a larger word counts: for \<open>unimportant notes\<close> and for
  \<open>removed old logs\<close>, where no word is a keyword, the analysis at iteration 0 suspends.
\<close>

theorem keyword_inside_larger_word:
  "sensitive_keywords = [''delete'', ''remove'', ''critical'', ''important'', ''sensitive''] \<and>
   (needs_approval t \<longleftrightarrow> (\<exists>k \<in> set sensitive_keywords. sublist k (lower t))) \<and>
   lower ''unimportant notes'' = ''un'' @ ''important'' @ '' notes'' \<and>
   ''unimportant'' \<notin> set sensitive_keywords \<and> ''notes'' \<notin> set sensitive_keywords \<and>
   analyze_task (initial_state ''unimportant notes'') =
     Inl (NodeInterrupt (approval_prompt ''unimportant notes'')) \<and>
   lower ''removed old logs'' = ''remove'' @ ''d old logs'' \<and>
   ''removed'' \<notin> set sensitive_keywords \<and> ''old'' \<notin> set sensitive_keywords \<and>
   ''logs'' \<notin> set sensitive_keywords \<and>
   analyze_task (initial_state ''removed old logs'') =
     Inl (NodeInterrupt (approval_prompt ''removed old logs'')) \<and>
   fst (run Map.empty ''demo_thread'' ''unimportant notes'') =
     Inr (suspended (approval_prompt ''unimportant notes'')) \<and>
   fst (run Map.empty ''demo_thread'' ''removed old logs'') =
     Inr (suspended (approval_prompt ''removed old logs''))"
proof -
  have n: "needs_approval ''unimportant notes''" "needs_approval ''removed old logs''"
    by (simp_all add: policy_defs)
  then have "fst (run Map.empty ''demo_thread'' ''unimportant notes'') =
      Inr (suspended (approval_prompt ''unimportant notes''))"
    and "fst (run Map.empty ''demo_thread'' ''removed old logs'') =
      Inr (suspended (approval_prompt ''removed old logs''))"
    by (simp_all add: run_fresh continue_from_start)
  moreover from n have "analyze_task (initial_state ''unimportant notes'') =
      Inl (NodeInterrupt (approval_prompt ''unimportant notes''))"
    and "analyze_task (initial_state ''removed old logs'') =
      Inl (NodeInterrupt (approval_prompt ''removed old logs''))"
    by (simp_all add: analyze_task_def initial_state_def)
  moreover have "lower ''unimportant notes'' = ''un'' @ ''important'' @ '' notes''"
    and "lower ''removed old logs'' = ''remove'' @ ''d old logs''"
    by (simp_all add: lower_def lower_char_def)
  ultimately show ?thesis
    by (simp add: needs_approval_sublist) (simp add: sensitive_keywords_def)
qed

text \<open>
  C10. Frame of the steps: when \<open>analyze_task\<close> returns, only the status differs from its
  input; \<open>execute_task\<close> and \<open>handle_rejection\<close> change only the result. No step changes
  the task or the iteration. The steps are functions from a state to a new state, so the
  input is never changed in place.
\<close>

theorem steps_frame:
  "(analyze_task s = Inr s' \<longrightarrow>
      s' = s\<lparr>approval_status := approval_status s'\<rparr> \<and> task s' = task s \<and>
      result s' = result s \<and> iteration s' = iteration s) \<and>
   execute_task s = s\<lparr>result := result (execute_task s)\<rparr> \<and>
   task (execute_task s) = task s \<and> approval_status (execute_task s) = approval_status s \<and>
   iteration (execute_task s) = iteration s \<and>
   handle_rejection s = s\<lparr>result := result (handle_rejection s)\<rparr> \<and>
   task (handle_rejection s) = task s \<and>
   approval_status (handle_rejection s) = approval_status s \<and>
   iteration (handle_rejection s) = iteration s"
  by (auto simp: analyze_task_def execute_task_def handle_rejection_def split: if_splits)

theorem steps_frame_witness:
  "analyze_task (initial_state ''generate report'') =
     Inr \<lparr>task = ''generate report'', approval_status = Some ''auto_approved'', result = None,
          iteration = 0\<rparr> \<and>
   task (execute_task (initial_state ''generate report'')) = ''generate report'' \<and>
   iteration (handle_rejection (initial_state ''generate report'')) = 0"
proof -
  have a: "analyze_task (initial_state ''generate report'') =
     Inr \<lparr>task = ''generate report'', approval_status = Some ''auto_approved'', result = None,
          iteration = 0\<rparr>"
    by (simp add: analyze_task_def initial_state_def policy_defs)
  from a steps_frame [of "initial_state ''generate report''"
      "\<lparr>task = ''generate report'', approval_status = Some ''auto_approved'', result = None,
          iteration = 0\<rparr>"]
  show ?thesis by (simp add: initial_state_def)
qed

end
